theory Spec2Isabelle
  imports Complex_Main "HOL-Library.Multiset" "HOL-Library.AList"
begin

section \<open>Data model\<close>

text \<open>
  The script \<^verbatim>\<open>ap.py\<close> works on pandas data frames. A row of the cleaned frame has the
  columns \<^verbatim>\<open>name\<close> and \<^verbatim>\<open>score\<close>; \<^verbatim>\<open>categorize_students\<close> adds the column
  \<^verbatim>\<open>category\<close>, whose cells are one of the three labels or missing (NaN), hence a
  \<open>tier option\<close>. A frame is the list of its rows, in row order. Scores are Python
  floats; they are modelled by exact reals, so rounding, infinities and NaN of the
  floating-point arithmetic are outside the model.
\<close>

datatype tier = Low | Medium | High

record row =
  name :: string
  score :: real

record student = row +
  category :: "tier option"

text \<open>The exceptions of the Python runtime that the modelled functions can raise.\<close>

datatype py_exn =
  IndexError | ZeroDivisionError | TypeError | EvalError
  | StopIteration | ValueError | KeyError | InvalidIndexError

section \<open>Categorizer\<close>

text \<open>
  \<^verbatim>\<open>pd.cut(x, bins, labels)\<close> with the default \<^verbatim>\<open>right=True\<close>: the i-th label is given to
  the values of the interval \<open>(bins[i], bins[i+1]]\<close>, and a value in no interval gets
  no label (NaN).
\<close>

fun cut :: "real list \<Rightarrow> tier list \<Rightarrow> real \<Rightarrow> tier option" where
  "cut (lo # hi # bs) (l # ls) p =
     (if lo < p \<and> p \<le> hi then Some l else cut (hi # bs) ls p)"
| "cut _ _ p = None"

definition bins :: "real list" where
  "bins = [-1, 40, 70, 100]"

definition labels :: "tier list" where
  "labels = [Low, Medium, High]"

definition categorize :: "real \<Rightarrow> tier option" where
  "categorize p = cut bins labels p"

definition categorize_students :: "row list \<Rightarrow> student list" where
  "categorize_students data =
     map (\<lambda>r. \<lparr>name = name r, score = score r, category = categorize (score r)\<rparr>) data"

section \<open>Batch Builder\<close>

text \<open>
  \<^verbatim>\<open>categorized\<close> is the dictionary from the labels High, Medium, Low to the frame of
  the rows with that label: a function from \<open>tier\<close> to row lists. One iteration of
  the \<^verbatim>\<open>while\<close> loop concatenates the first two rows of High, the first two of Medium
  and the first of Low (\<open>make_batch\<close>), then drops from every pool as many rows as the
  batch has rows of that label (\<open>advance\<close>), and appends the batch when it is not empty.
  The loop has no bound in the source, so it is a partial function: \<open>None\<close> is a
  run that never leaves the loop.
\<close>

definition pools_of :: "student list \<Rightarrow> tier \<Rightarrow> student list" where
  "pools_of data = (\<lambda>label. filter (\<lambda>r. category r = Some label) data)"

definition any_nonempty :: "(tier \<Rightarrow> student list) \<Rightarrow> bool" where
  "any_nonempty categorized =
     list_ex (\<lambda>v. length v > 0) (map categorized [High, Medium, Low])"

definition make_batch :: "(tier \<Rightarrow> student list) \<Rightarrow> student list" where
  "make_batch categorized =
     concat (map (\<lambda>label. take 2 (categorized label)) [High, Medium] @ [take 1 (categorized Low)])"

definition advance :: "(tier \<Rightarrow> student list) \<Rightarrow> student list \<Rightarrow> tier \<Rightarrow> student list" where
  "advance categorized batch =
     (\<lambda>label. drop (length (filter (\<lambda>r. category r = Some label) batch)) (categorized label))"

partial_function (option) batch_loop ::
  "(tier \<Rightarrow> student list) \<Rightarrow> student list list \<Rightarrow> student list list option" where
  "batch_loop categorized batches =
     (if any_nonempty categorized then
        (let batch = make_batch categorized
         in batch_loop (advance categorized batch)
              (if batch \<noteq> [] then batches @ [batch] else batches))
      else Some batches)"

definition create_balanced_batches :: "student list \<Rightarrow> student list list option" where
  "create_balanced_batches data = batch_loop (pools_of data) []"

text \<open>
  The quantities the properties of the Batch Builder are stated with: the quota of a
  label per batch, the number of rows of a label in a batch, the number of rows left
  in the pools, and the fact that every pool holds rows of its own label only (true
  of the pools the source builds, which are filters of one frame).
\<close>

fun quota :: "tier \<Rightarrow> nat" where
  "quota High = 2"
| "quota Medium = 2"
| "quota Low = 1"

definition count_tier :: "tier \<Rightarrow> student list \<Rightarrow> nat" where
  "count_tier label batch = length (filter (\<lambda>r. category r = Some label) batch)"

definition pool_size :: "(tier \<Rightarrow> student list) \<Rightarrow> nat" where
  "pool_size categorized =
     length (categorized High) + length (categorized Medium) + length (categorized Low)"

definition well_labelled :: "(tier \<Rightarrow> student list) \<Rightarrow> bool" where
  "well_labelled categorized =
     (\<forall>label. \<forall>r \<in> set (categorized label). category r = Some label)"

section \<open>Score Normalizer\<close>





text \<open>
  The two sides are handed to Python's built-in \<^verbatim>\<open>eval\<close>, which is no code of this
  script: it is the parameter \<open>ev\<close> of the model. A call of \<^verbatim>\<open>eval\<close> raises (\<open>Inl\<close>) or
  returns an object: a number (\<open>Num\<close>: int, float or bool) or any other object
  (\<open>NonNum\<close>), for which \<^verbatim>\<open>/\<close> raises \<^verbatim>\<open>TypeError\<close>. Side effects of the evaluated
  text are outside the model.
\<close>

datatype pyval = Num real | NonNum














section \<open>Topic Rotator\<close>

text \<open>
  A topic is a dictionary with the keys \<^verbatim>\<open>Topic\<close> and \<^verbatim>\<open>Description\<close>; an assignment is
  a dictionary with the keys \<^verbatim>\<open>Week\<close>, \<^verbatim>\<open>Batch\<close> and \<^verbatim>\<open>Topic\<close> (here \<open>Topic_title\<close>,
  since the two records cannot share a field name).
\<close>

record topic =
  Topic :: string
  Description :: string

record assignment =
  Week :: int
  Batch :: string
  Topic_title :: string

text \<open>
  The f-strings \<^verbatim>\<open>f"Batch {i + 1}"\<close> and \<^verbatim>\<open>f"Week {week} Topic"\<close> print an integer in
  decimal.
\<close>

definition digit_char :: "nat \<Rightarrow> char" where
  "digit_char d = char_of (48 + d)"

fun str_nat :: "nat \<Rightarrow> string" where
  "str_nat n = (if n < 10 then [digit_char n] else str_nat (n div 10) @ [digit_char (n mod 10)])"

definition str_int :: "int \<Rightarrow> string" where
  "str_int i = (if i < 0 then CHR ''-'' # str_nat (nat (- i)) else str_nat (nat i))"

definition batch_label :: "nat \<Rightarrow> string" where
  "batch_label i = ''Batch '' @ str_nat (i + 1)"

definition week_column :: "int \<Rightarrow> string" where
  "week_column week = ''Week '' @ str_int week @ '' Topic''"

text \<open>
  \<^verbatim>\<open>itertools.cycle(topics)\<close> is an iterator over the topics that starts again at the
  first one after the last; its state is the position of the next topic. \<^verbatim>\<open>next\<close> on
  the cycle of an empty list raises \<^verbatim>\<open>StopIteration\<close>.
\<close>

definition next_cycle :: "'a list \<Rightarrow> nat \<Rightarrow> py_exn + ('a \<times> nat)" where
  "next_cycle xs ptr =
     (if xs = [] then Inl StopIteration else Inr (xs ! ptr, (ptr + 1) mod length xs))"

text \<open>
  The inner loop over \<^verbatim>\<open>enumerate(batches)\<close> and the outer loop over
  \<^verbatim>\<open>range(1, weeks + 1)\<close>; the state is the position of the cycle and the list of
  assignments made so far.
\<close>

fun assign_week ::
  "topic list \<Rightarrow> int \<Rightarrow> (nat \<times> student list) list \<Rightarrow> nat \<times> assignment list
     \<Rightarrow> py_exn + (nat \<times> assignment list)" where
  "assign_week topics week [] st = Inr st"
| "assign_week topics week ((i, batch) # rest) (ptr, assignments) =
     (case next_cycle topics ptr of
        Inl e \<Rightarrow> Inl e
      | Inr (tp, ptr') \<Rightarrow>
          assign_week topics week rest
            (ptr', assignments @ [\<lparr>Week = week, Batch = batch_label i, Topic_title = Topic tp\<rparr>]))"

fun assign_weeks ::
  "topic list \<Rightarrow> (nat \<times> student list) list \<Rightarrow> int list \<Rightarrow> nat \<times> assignment list
     \<Rightarrow> py_exn + (nat \<times> assignment list)" where
  "assign_weeks topics numbered [] st = Inr st"
| "assign_weeks topics numbered (week # weeks) st =
     (case assign_week topics week numbered st of
        Inl e \<Rightarrow> Inl e
      | Inr st' \<Rightarrow> assign_weeks topics numbered weeks st')"

definition assign_topics ::
  "student list list \<Rightarrow> topic list \<Rightarrow> int \<Rightarrow> py_exn + assignment list" where
  "assign_topics batches topics weeks =
     (case assign_weeks topics (enumerate 0 batches) [1..weeks] (0, []) of
        Inl e \<Rightarrow> Inl e
      | Inr (ptr, assignments) \<Rightarrow> Inr assignments)"

text \<open>
  The assignment expected at position \<open>k\<close> of the flattened iteration over weeks
  (outer) and \<open>B\<close> batches (inner), with the topics taken cyclically.
\<close>

definition expected_assignment :: "nat \<Rightarrow> topic list \<Rightarrow> nat \<Rightarrow> assignment" where
  "expected_assignment B topics k =
     \<lparr>Week = int (k div B) + 1, Batch = batch_label (k mod B),
      Topic_title = Topic (topics ! (k mod length topics))\<rparr>"

section \<open>Output Composer\<close>

text \<open>
  The combined table is a frame of text cells: the list of its columns in order, each
  a header with its cells (\<open>None\<close> is NaN). \<^verbatim>\<open>result[col] = cells\<close> replaces the column
  of that header or appends a new one (\<open>AList.update\<close>). \<^verbatim>\<open>Series.map\<close> with a series
  as mapper looks every cell up in the mapper's index and raises when the index has a
  label twice. \<^verbatim>\<open>pd.concat\<close> of no frames raises \<^verbatim>\<open>ValueError\<close>, and the column
  \<^verbatim>\<open>Week\<close> of the frame of no assignments does not exist (\<^verbatim>\<open>KeyError\<close>).
\<close>

type_synonym frame = "(string \<times> string option list) list"

definition series_map ::
  "(string \<times> string) list \<Rightarrow> string option list \<Rightarrow> py_exn + string option list" where
  "series_map mapper cells =
     (if \<not> distinct (map fst mapper) then Inl InvalidIndexError
      else Inr (map (\<lambda>c. case c of None \<Rightarrow> None | Some k \<Rightarrow> map_of mapper k) cells))"

definition week_topics :: "assignment list \<Rightarrow> int \<Rightarrow> (string \<times> string) list" where
  "week_topics assignments week =
     map (\<lambda>a. (Batch a, Topic_title a)) (filter (\<lambda>a. Week a = week) assignments)"

fun add_week_columns :: "assignment list \<Rightarrow> int list \<Rightarrow> frame \<Rightarrow> py_exn + frame" where
  "add_week_columns assignments [] result = Inr result"
| "add_week_columns assignments (week # weeks) result =
     (case map_of result ''Batch'' of
        None \<Rightarrow> Inl KeyError
      | Some batch_cells \<Rightarrow>
         (case series_map (week_topics assignments week) batch_cells of
            Inl e \<Rightarrow> Inl e
          | Inr cells \<Rightarrow>
              add_week_columns assignments weeks
                (AList.update (week_column week) cells result)))"

definition batch_frame :: "student list list \<Rightarrow> frame" where
  "batch_frame batches =
     [(''Name'', concat (map (\<lambda>(i, batch). map (\<lambda>r. Some (name r)) batch) (enumerate 0 batches))),
      (''Batch'', concat (map (\<lambda>(i, batch). map (\<lambda>r. Some (batch_label i)) batch) (enumerate 0 batches)))]"

definition prepare_output :: "student list list \<Rightarrow> assignment list \<Rightarrow> py_exn + frame" where
  "prepare_output batches assignments =
     (if batches = [] then Inl ValueError
      else if assignments = [] then Inl KeyError
      else add_week_columns assignments [1..Max (set (map Week assignments))]
             (batch_frame batches))"

text \<open>
  The table expected for a run of \<open>d\<close> weeks: the columns \<^verbatim>\<open>Name\<close> and \<^verbatim>\<open>Batch\<close>, then
  one column per week; the cell of a student of batch \<open>i\<close> (0-based) in week \<open>w\<close> is the
  title of the topic at index \<open>((w - 1) * B + i) mod T\<close>.
\<close>

definition week_cells :: "student list list \<Rightarrow> topic list \<Rightarrow> int \<Rightarrow> string option list" where
  "week_cells batches topics w =
     concat (map (\<lambda>(i, batch).
                map (\<lambda>r. Some (Topic (topics ! ((nat (w - 1) * length batches + i) mod length topics))))
                  batch)
       (enumerate 0 batches))"

definition composed :: "student list list \<Rightarrow> topic list \<Rightarrow> int \<Rightarrow> frame" where
  "composed batches topics d =
     batch_frame batches @ map (\<lambda>w. (week_column w, week_cells batches topics w)) [1..d]"

text \<open>
  The archive has one entry per batch, named \<^verbatim>\<open>Batch_<i + 1>.csv\<close>, with the columns
  \<^verbatim>\<open>name\<close>, \<^verbatim>\<open>score\<close>, \<^verbatim>\<open>category\<close> of the batch; the entry is kept as its rows, not as
  CSV text.
\<close>

definition export_batches_individually ::
  "student list list \<Rightarrow> (string \<times> (string \<times> real \<times> tier option) list) list" where
  "export_batches_individually batches =
     map (\<lambda>(i, batch). (''Batch_'' @ str_nat (i + 1) @ ''.csv'',
                         map (\<lambda>r. (name r, score r, category r)) batch))
       (enumerate 0 batches)"

text \<open>
  The body of the script once files are uploaded, from the cleaned frame on: nothing
  is shown for an empty frame (\<open>Inr None\<close>); otherwise the stages run in order, with
  five weeks, and the first exception ends the run before the table and the archive
  are shown. The outer \<open>None\<close> is a run whose batch loop never returns.
\<close>

definition main_run ::
  "row list \<Rightarrow> topic list
     \<Rightarrow> (py_exn + (frame \<times> (string \<times> (string \<times> real \<times> tier option) list) list) option) option" where
  "main_run data custom_topics =
     (if data = [] then Some (Inr None)
      else
        (case create_balanced_batches (categorize_students data) of
           None \<Rightarrow> None
         | Some batches \<Rightarrow>
             Some (case assign_topics batches custom_topics 5 of
                     Inl e \<Rightarrow> Inl e
                   | Inr topic_assignments \<Rightarrow>
                      (case prepare_output batches topic_assignments of
                         Inl e \<Rightarrow> Inl e
                       | Inr output \<Rightarrow>
                           Inr (Some (output, export_batches_individually batches))))))"

section \<open>Example inputs\<close>

text \<open>
  A categorized frame of seven students: three High, one Medium, two Low and one
  without a tier (score 150).
\<close>

definition roster :: "student list" where
  "roster =
     [\<lparr>name = ''a'', score = 90, category = Some High\<rparr>,
      \<lparr>name = ''b'', score = 20, category = Some Low\<rparr>,
      \<lparr>name = ''c'', score = 80, category = Some High\<rparr>,
      \<lparr>name = ''d'', score = 75, category = Some High\<rparr>,
      \<lparr>name = ''e'', score = 150, category = None\<rparr>,
      \<lparr>name = ''f'', score = 50, category = Some Medium\<rparr>,
      \<lparr>name = ''g'', score = 10, category = Some Low\<rparr>]"


text \<open>Three topics, and the two batches the Batch Builder makes of the frame above.\<close>

definition example_topics :: "topic list" where
  "example_topics =
     [\<lparr>Topic = ''A'', Description = ''first''\<rparr>,
      \<lparr>Topic = ''B'', Description = ''second''\<rparr>,
      \<lparr>Topic = ''C'', Description = ''third''\<rparr>]"

definition roster_batches_list :: "student list list" where
  "roster_batches_list =
     [[\<lparr>name = ''a'', score = 90, category = Some High\<rparr>,
       \<lparr>name = ''c'', score = 80, category = Some High\<rparr>,
       \<lparr>name = ''f'', score = 50, category = Some Medium\<rparr>,
       \<lparr>name = ''b'', score = 20, category = Some Low\<rparr>],
      [\<lparr>name = ''d'', score = 75, category = Some High\<rparr>,
       \<lparr>name = ''g'', score = 10, category = Some Low\<rparr>]]"

section \<open>Properties of the Categorizer\<close>

text \<open>
  Claim C5, as amended. The Categorizer gives every percentage of \<open>(-1, 100]\<close> exactly
  one tier: Low on \<open>(-1, 40]\<close>, Medium on \<open>(40, 70]\<close>, High on \<open>(70, 100]\<close>, with the
  boundary values 40, 40.0001, 70 and 70.0001 as the specification lists them. A
  percentage outside \<open>(-1, 100]\<close> gets no tier, and the function has no other result
  through which it could be flagged.
\<close>

theorem categorize_intervals:
  "categorize p =
     (if -1 < p \<and> p \<le> 40 then Some Low
      else if 40 < p \<and> p \<le> 70 then Some Medium
      else if 70 < p \<and> p \<le> 100 then Some High
      else None)
   \<and> ((categorize p = None) = (p \<le> -1 \<or> 100 < p))
   \<and> categorize 40 = Some Low \<and> categorize 40.0001 = Some Medium
   \<and> categorize 70 = Some Medium \<and> categorize 70.0001 = Some High"
  by (auto simp: categorize_def bins_def labels_def)

text \<open>
  The claim C5 as stated fails: \<open>-5 \<le> 40\<close> is not mapped to Low, and 150, outside
  \<open>[0, 100]\<close>, silently gets no tier.
\<close>

theorem categorize_counterexample:
  "categorize (-5) \<noteq> Some Low \<and> categorize 150 = None"
  by (simp add: categorize_def bins_def labels_def)

section \<open>Properties of the Batch Builder\<close>

lemma well_labelled_pools_of: "well_labelled (pools_of data)"
  by (simp add: well_labelled_def pools_of_def)

lemma make_batch_eq:
  "make_batch c = take 2 (c High) @ take 2 (c Medium) @ take 1 (c Low)"
  by (simp add: make_batch_def)

lemma filter_take_same:
  "\<forall>r \<in> set xs. category r = Some l \<Longrightarrow> filter (\<lambda>r. category r = Some l) (take n xs) = take n xs"
  by (rule filter_True) (auto dest: in_set_takeD)

lemma filter_take_other:
  "\<forall>r \<in> set xs. category r = Some l' \<Longrightarrow> l \<noteq> l' \<Longrightarrow> filter (\<lambda>r. category r = Some l) (take n xs) = []"
  by (rule filter_False) (auto dest: in_set_takeD)

lemma filter_make_batch:
  assumes "well_labelled c"
  shows "filter (\<lambda>r. category r = Some l) (make_batch c) = take (quota l) (c l)"
proof -
  have H: "\<forall>r \<in> set (c High). category r = Some High"
    and M: "\<forall>r \<in> set (c Medium). category r = Some Medium"
    and L: "\<forall>r \<in> set (c Low). category r = Some Low"
    using assms by (simp_all add: well_labelled_def)
  show ?thesis
    by (cases l) (simp_all add: make_batch_eq filter_take_same [OF H] filter_take_same [OF M]
        filter_take_same [OF L] filter_take_other [OF H] filter_take_other [OF M]
        filter_take_other [OF L])
qed

lemma advance_make_batch:
  assumes "well_labelled c"
  shows "advance c (make_batch c) = (\<lambda>l. drop (quota l) (c l))"
proof
  fix l
  show "advance c (make_batch c) l = drop (quota l) (c l)"
    by (simp add: advance_def filter_make_batch [OF assms] min_def)
qed

lemma well_labelled_advance:
  "well_labelled c \<Longrightarrow> well_labelled (advance c (make_batch c))"
  by (auto simp: advance_make_batch well_labelled_def dest: in_set_dropD)

lemma any_nonempty_iff: "any_nonempty c \<longleftrightarrow> (\<exists>l. c l \<noteq> [])"
proof -
  have "(\<exists>l. c l \<noteq> []) \<longleftrightarrow> c High \<noteq> [] \<or> c Medium \<noteq> [] \<or> c Low \<noteq> []"
    by (metis tier.exhaust)
  then show ?thesis by (auto simp: any_nonempty_def)
qed

lemma make_batch_nonempty: "any_nonempty c \<Longrightarrow> make_batch c \<noteq> []"
  by (auto simp: any_nonempty_def make_batch_eq)

lemma pool_size_advance:
  assumes "well_labelled c"
  shows "pool_size (advance c (make_batch c)) + length (make_batch c) = pool_size c"
  unfolding advance_make_batch [OF assms] by (simp add: pool_size_def make_batch_eq)

lemma mset_step:
  assumes "well_labelled c"
  shows "mset (make_batch c) + (\<Sum>l\<leftarrow>[High, Medium, Low]. mset (advance c (make_batch c) l))
       = (\<Sum>l\<leftarrow>[High, Medium, Low]. mset (c l))"
proof -
  have "\<And>n xs. mset (take n xs) + mset (drop n xs) = mset (xs :: student list)"
    by (metis append_take_drop_id mset_append)
  then show ?thesis
    unfolding advance_make_batch [OF assms] by (simp add: make_batch_eq ac_simps)
qed

lemma count_tier_make_batch:
  "well_labelled c \<Longrightarrow> count_tier l (make_batch c) \<le> quota l"
  by (simp add: count_tier_def filter_make_batch)

lemma batch_loop_result:
  "well_labelled c \<Longrightarrow>
   \<exists>new. batch_loop c bs = Some (bs @ new)
     \<and> mset (concat new) = (\<Sum>l\<leftarrow>[High, Medium, Low]. mset (c l))
     \<and> (\<forall>b \<in> set new. b \<noteq> [] \<and> (\<forall>l. count_tier l b \<le> quota l))"
proof (induction "pool_size c" arbitrary: c bs rule: less_induct)
  case less
  show ?case
  proof (cases "any_nonempty c")
    case False
    then have "c High = []" "c Medium = []" "c Low = []"
      by (simp_all add: any_nonempty_iff)
    moreover have "batch_loop c bs = Some bs"
      using False by (subst batch_loop.simps) simp
    ultimately show ?thesis by simp
  next
    case True
    define b where "b = make_batch c"
    define c' where "c' = advance c b"
    have ne: "b \<noteq> []"
      using True by (simp add: b_def make_batch_nonempty)
    have "pool_size c' + length b = pool_size c"
      using less.prems by (simp add: b_def c'_def pool_size_advance)
    with ne have smaller: "pool_size c' < pool_size c"
      by (cases b) auto
    have wl: "well_labelled c'"
      using less.prems by (simp add: b_def c'_def well_labelled_advance)
    from less.hyps [OF smaller wl, of "bs @ [b]"] obtain new where
      run: "batch_loop c' (bs @ [b]) = Some ((bs @ [b]) @ new)"
      and ms: "mset (concat new) = (\<Sum>l\<leftarrow>[High, Medium, Low]. mset (c' l))"
      and qs: "\<forall>b \<in> set new. b \<noteq> [] \<and> (\<forall>l. count_tier l b \<le> quota l)"
      by blast
    have "batch_loop c bs = batch_loop c' (bs @ [b])"
      using True ne by (subst batch_loop.simps) (simp add: b_def c'_def Let_def)
    with run have "batch_loop c bs = Some (bs @ (b # new))"
      by simp
    moreover have "mset (concat (b # new)) = (\<Sum>l\<leftarrow>[High, Medium, Low]. mset (c l))"
      using mset_step [OF less.prems] ms by (simp add: b_def c'_def)
    moreover have "\<forall>x \<in> set (b # new). x \<noteq> [] \<and> (\<forall>l. count_tier l x \<le> quota l)"
      using qs ne count_tier_make_batch [OF less.prems] by (simp add: b_def)
    ultimately show ?thesis by blast
  qed
qed

lemma roster_batches:
  "create_balanced_batches roster =
     Some [[\<lparr>name = ''a'', score = 90, category = Some High\<rparr>,
            \<lparr>name = ''c'', score = 80, category = Some High\<rparr>,
            \<lparr>name = ''f'', score = 50, category = Some Medium\<rparr>,
            \<lparr>name = ''b'', score = 20, category = Some Low\<rparr>],
           [\<lparr>name = ''d'', score = 75, category = Some High\<rparr>,
            \<lparr>name = ''g'', score = 10, category = Some Low\<rparr>]]"
  by (simp add: create_balanced_batches_def roster_def pools_of_def batch_loop.simps
      any_nonempty_def make_batch_def advance_def)

text \<open>
  Claim C2. For every categorized frame the Batch Builder returns, and the students of
  its batches are, as a multiset, exactly the students of the three pools High, Medium
  and Low: none is dropped and none is duplicated.
\<close>

theorem batches_preserve_students:
  "\<exists>batches. create_balanced_batches data = Some batches
     \<and> mset (concat batches)
         = mset (pools_of data High) + mset (pools_of data Medium) + mset (pools_of data Low)"
  using batch_loop_result [OF well_labelled_pools_of, of data "[]"]
  by (auto simp: create_balanced_batches_def)

theorem batches_preserve_students_witness:
  "\<exists>batches. create_balanced_batches roster = Some batches
     \<and> size (mset (concat batches)) = 6"
proof -
  from batches_preserve_students [of roster] obtain batches where
    run: "create_balanced_batches roster = Some batches"
    and ms: "mset (concat batches)
         = mset (pools_of roster High) + mset (pools_of roster Medium)
           + mset (pools_of roster Low)"
    by blast
  have "size (mset (concat batches))
      = size (mset (pools_of roster High) + mset (pools_of roster Medium)
          + mset (pools_of roster Low))"
    by (simp only: ms)
  also have "\<dots> = 6"
    by (simp add: pools_of_def roster_def)
  finally show ?thesis
    using run by blast
qed

text \<open>
  Claim C3. Every batch the Batch Builder emits has at most 2 High, at most 2 Medium
  and at most 1 Low student, and is not empty.
\<close>

theorem batches_within_quota:
  "\<exists>batches. create_balanced_batches data = Some batches
     \<and> (\<forall>batch \<in> set batches. batch \<noteq> []
           \<and> count_tier High batch \<le> 2 \<and> count_tier Medium batch \<le> 2
           \<and> count_tier Low batch \<le> 1)"
proof -
  from batch_loop_result [OF well_labelled_pools_of, of data "[]"]
  obtain new where run: "batch_loop (pools_of data) [] = Some new"
    and q: "\<forall>b \<in> set new. b \<noteq> [] \<and> (\<forall>l. count_tier l b \<le> quota l)"
    by auto
  have "\<forall>b \<in> set new. b \<noteq> [] \<and> count_tier High b \<le> 2 \<and> count_tier Medium b \<le> 2
          \<and> count_tier Low b \<le> 1"
  proof
    fix b assume "b \<in> set new"
    with q have "b \<noteq> []" and c: "\<And>l. count_tier l b \<le> quota l" by auto
    from c [of High] c [of Medium] c [of Low] \<open>b \<noteq> []\<close>
    show "b \<noteq> [] \<and> count_tier High b \<le> 2 \<and> count_tier Medium b \<le> 2 \<and> count_tier Low b \<le> 1"
      by simp
  qed
  with run show ?thesis by (simp add: create_balanced_batches_def)
qed

theorem batches_within_quota_witness:
  "\<exists>batches. create_balanced_batches roster = Some batches \<and> length batches = 2
     \<and> list_all (\<lambda>batch. batch \<noteq> [] \<and> count_tier High batch \<le> 2
          \<and> count_tier Medium batch \<le> 2 \<and> count_tier Low batch \<le> 1) batches"
  using batches_within_quota [of roster] by (auto simp: roster_batches list_all_iff)

text \<open>
  Claim C6. On three pools that each hold students of their own tier, the loop of the
  Batch Builder terminates. It goes on exactly while some pool is not empty; an
  iteration then takes a non-empty batch, the pools shrink by the size of that
  batch, and the loop continues from the shrunk pools with the batch appended. With
  all three pools empty it stops and returns the batches made so far.
\<close>

theorem batch_loop_terminates:
  assumes "well_labelled categorized"
  shows "(\<exists>result. batch_loop categorized batches = Some result)
     \<and> (any_nonempty categorized
          = (categorized High \<noteq> [] \<or> categorized Medium \<noteq> [] \<or> categorized Low \<noteq> []))
     \<and> (if any_nonempty categorized
        then make_batch categorized \<noteq> []
           \<and> pool_size (advance categorized (make_batch categorized))
               + length (make_batch categorized) = pool_size categorized
           \<and> well_labelled (advance categorized (make_batch categorized))
           \<and> batch_loop categorized batches
               = batch_loop (advance categorized (make_batch categorized))
                   (batches @ [make_batch categorized])
        else batch_loop categorized batches = Some batches)"
proof -
  have "\<exists>result. batch_loop categorized batches = Some result"
    using batch_loop_result [OF assms, of batches] by blast
  moreover have "any_nonempty categorized
      = (categorized High \<noteq> [] \<or> categorized Medium \<noteq> [] \<or> categorized Low \<noteq> [])"
    by (auto simp: any_nonempty_def)
  moreover have "batch_loop categorized batches = Some batches" if "\<not> any_nonempty categorized"
    using that by (subst batch_loop.simps) simp
  moreover have "batch_loop categorized batches
      = batch_loop (advance categorized (make_batch categorized))
          (batches @ [make_batch categorized])" if "any_nonempty categorized"
    using that make_batch_nonempty [OF that] by (subst batch_loop.simps) (simp add: Let_def)
  ultimately show ?thesis
    using make_batch_nonempty pool_size_advance [OF assms] well_labelled_advance [OF assms]
    by simp
qed

theorem batch_loop_terminates_witness:
  "well_labelled (pools_of roster) \<and> any_nonempty (pools_of roster)
   \<and> (\<exists>result. batch_loop (pools_of roster) [] = Some result)
   \<and> length (make_batch (pools_of roster)) = 4
   \<and> pool_size (advance (pools_of roster) (make_batch (pools_of roster))) = 2"
proof -
  have wl: "well_labelled (pools_of roster)"
    by (rule well_labelled_pools_of)
  have ne: "any_nonempty (pools_of roster)"
    by (simp add: any_nonempty_def pools_of_def roster_def)
  have len: "length (make_batch (pools_of roster)) = 4"
    by (simp add: make_batch_def pools_of_def roster_def)
  have sz: "pool_size (pools_of roster) = 6"
    by (simp add: pool_size_def pools_of_def roster_def)
  note t = batch_loop_terminates [OF wl, of "[]"]
  from t have ex: "\<exists>result. batch_loop (pools_of roster) [] = Some result"
    by (rule conjunct1)
  from t ne have "pool_size (advance (pools_of roster) (make_batch (pools_of roster)))
      + length (make_batch (pools_of roster)) = pool_size (pools_of roster)"
    by (simp only: if_True)
  with len sz have "pool_size (advance (pools_of roster) (make_batch (pools_of roster))) = 2"
    by simp
  with wl ne len ex show ?thesis
    by (simp only: simp_thms)
qed

section \<open>Properties of the Topic Rotator\<close>

lemma next_cycle_mod:
  "topics \<noteq> [] \<Longrightarrow>
   next_cycle topics (m mod length topics) = Inr (topics ! (m mod length topics), Suc m mod length topics)"
  by (simp add: next_cycle_def mod_Suc_eq)

lemma assign_week_closed:
  "topics \<noteq> [] \<Longrightarrow>
   assign_week topics week (enumerate i bs) (m mod length topics, acc)
     = Inr ((m + length bs) mod length topics,
            acc @ map (\<lambda>j. \<lparr>Week = week, Batch = batch_label (i + j),
                             Topic_title = Topic (topics ! ((m + j) mod length topics))\<rparr>)
                    [0..<length bs])"
proof (induction bs arbitrary: i m acc)
  case Nil
  then show ?case by simp
next
  case (Cons b bs)
  show ?case
    using Cons.prems Cons.IH [OF Cons.prems, of "Suc i" "Suc m"]
    by (simp add: next_cycle_mod map_upt_Suc del: upt_Suc)
qed

lemma div_block: "x < B \<Longrightarrow> (n * B + x) div B = (n::nat)"
  by (cases "B = 0") simp_all

lemma upt_shift: "[0..<m + B] = [0..<m] @ map (\<lambda>j. m + j) [0..<B]"
  by (induction B) simp_all

lemma assign_week_expected:
  assumes "topics \<noteq> []" and "0 \<le> d"
  shows "assign_week topics (d + 1) (enumerate 0 bs)
           ((nat d * length bs) mod length topics,
            map (expected_assignment (length bs) topics) [0..<nat d * length bs])
     = Inr ((nat (d + 1) * length bs) mod length topics,
            map (expected_assignment (length bs) topics) [0..<nat (d + 1) * length bs])"
proof -
  define B where "B = length bs"
  define m where "m = nat d * B"
  define f where "f = expected_assignment B topics"
  have cells: "map (\<lambda>j. \<lparr>Week = d + 1, Batch = batch_label (0 + j),
                     Topic_title = Topic (topics ! ((m + j) mod length topics))\<rparr>) [0..<B]
      = map (\<lambda>j. f (m + j)) [0..<B]"
    using assms(2)
    by (intro map_cong) (simp_all add: f_def m_def expected_assignment_def div_block)
  have n: "nat (d + 1) * B = m + B"
    using assms(2) by (simp add: nat_add_distrib m_def)
  have "[0..<m + B] = [0..<m] @ map (\<lambda>j. m + j) [0..<B]"
    by (rule upt_shift)
  then have split: "map f [0..<m + B] = map f [0..<m] @ map (\<lambda>j. f (m + j)) [0..<B]"
    by (simp add: comp_def del: map_add_upt)
  have "assign_week topics (d + 1) (enumerate 0 bs) (m mod length topics, map f [0..<m])
      = Inr ((m + B) mod length topics, map f [0..<m] @ map (\<lambda>j. f (m + j)) [0..<B])"
    using assign_week_closed [OF assms(1), of "d + 1" 0 bs m "map f [0..<m]"]
    unfolding B_def [symmetric] cells .
  then show ?thesis
    unfolding split [symmetric] n [symmetric] unfolding m_def f_def B_def .
qed

lemma assign_weeks_expected:
  assumes "topics \<noteq> []"
  shows "0 \<le> d \<Longrightarrow> d \<le> W \<Longrightarrow>
     assign_weeks topics (enumerate 0 bs) [d + 1..W]
       ((nat d * length bs) mod length topics,
        map (expected_assignment (length bs) topics) [0..<nat d * length bs])
     = Inr ((nat W * length bs) mod length topics,
            map (expected_assignment (length bs) topics) [0..<nat W * length bs])"
proof (induction "nat (W - d)" arbitrary: d)
  case 0
  then have "d = W" by simp
  then show ?case by simp
next
  case (Suc n)
  then have lt: "d + 1 \<le> W" and n: "n = nat (W - (d + 1))" and d1: "0 \<le> d + 1"
    by simp_all
  have weeks: "[d + 1..W] = (d + 1) # [d + 1 + 1..W]"
    using lt by (simp add: upto_rec1)
  show ?case
    using Suc.hyps(1) [OF n d1 lt] assign_week_expected [OF assms \<open>0 \<le> d\<close>, of bs]
    by (simp only: weeks assign_weeks.simps sum.case)
qed

lemma assign_topics_expected:
  assumes "topics \<noteq> []"
  shows "assign_topics batches topics W
     = Inr (map (expected_assignment (length batches) topics) [0..<nat W * length batches])"
proof (cases "0 \<le> W")
  case True
  with assign_weeks_expected [OF assms, of 0 W batches] show ?thesis
    by (simp add: assign_topics_def)
next
  case False
  then show ?thesis by (simp add: assign_topics_def)
qed

lemma assign_weeks_no_batches: "assign_weeks topics [] weeks st = Inr st"
  by (induction weeks) simp_all

lemma assign_topics_no_topics:
  "assign_topics batches [] W = (if batches \<noteq> [] \<and> 1 \<le> W then Inl StopIteration else Inr [])"
proof (cases batches)
  case Nil
  then show ?thesis by (simp add: assign_topics_def assign_weeks_no_batches)
next
  case (Cons b bs)
  show ?thesis
  proof (cases "1 \<le> W")
    case True
    then have "[1..W] = 1 # [1 + 1..W]" by (simp add: upto_rec1)
    then show ?thesis
      using True Cons by (simp add: assign_topics_def enumerate_simps next_cycle_def)
  next
    case False
    then show ?thesis by (simp add: assign_topics_def)
  qed
qed

lemma batch_label_1: "batch_label (Suc 0) = ''Batch 2''"
  by code_simp

lemma length_roster_batches_list: "length roster_batches_list = 2"
  by (simp add: roster_batches_list_def)

lemma example_topics_facts: "length example_topics = 3" "Topic (example_topics ! 0) = ''A''"
  by (simp_all add: example_topics_def)

text \<open>
  Claim C1. For every batch sequence of length B, every non-empty topic list of size T
  and every week count W, the Topic Rotator returns B * W assignments (none for
  W below 1); the k-th of them (0-based) is for week \<open>k div B + 1\<close> and batch
  \<open>k mod B + 1\<close>, and its topic is the topic at index \<open>k mod T\<close>: one pointer for the
  whole run, never reset between weeks.
\<close>

theorem assign_topics_rotation:
  assumes "topics \<noteq> []"
  shows "\<exists>assignments. assign_topics batches topics W = Inr assignments
     \<and> length assignments = length batches * nat W
     \<and> (\<forall>k < length assignments.
           assignments ! k
             = \<lparr>Week = int (k div length batches) + 1,
                Batch = batch_label (k mod length batches),
                Topic_title = Topic (topics ! (k mod length topics))\<rparr>)"
  using assign_topics_expected [OF assms, of batches W]
  by (simp add: expected_assignment_def mult.commute)

theorem assign_topics_rotation_witness:
  "example_topics \<noteq> []
   \<and> (\<exists>assignments. assign_topics roster_batches_list example_topics 2 = Inr assignments
        \<and> length assignments = 4
        \<and> assignments ! 3 = \<lparr>Week = 2, Batch = ''Batch 2'', Topic_title = ''A''\<rparr>)"
proof -
  have ne: "example_topics \<noteq> []"
    by (simp add: example_topics_def)
  from assign_topics_rotation [OF ne, of roster_batches_list 2] obtain assignments where
    run: "assign_topics roster_batches_list example_topics 2 = Inr assignments"
    and len: "length assignments = length roster_batches_list * nat 2"
    and nth: "\<forall>k < length assignments.
           assignments ! k
             = \<lparr>Week = int (k div length roster_batches_list) + 1,
                Batch = batch_label (k mod length roster_batches_list),
                Topic_title = Topic (example_topics ! (k mod length example_topics))\<rparr>"
    by blast
  have l4: "length assignments = 4"
    using len by (simp add: length_roster_batches_list)
  then have "assignments ! 3
      = \<lparr>Week = int (3 div length roster_batches_list) + 1,
         Batch = batch_label (3 mod length roster_batches_list),
         Topic_title = Topic (example_topics ! (3 mod length example_topics))\<rparr>"
    using nth by simp
  then have "assignments ! 3 = \<lparr>Week = 2, Batch = ''Batch 2'', Topic_title = ''A''\<rparr>"
    by (simp add: length_roster_batches_list example_topics_facts batch_label_1)
  with ne run l4 show ?thesis by blast
qed

lemma category_None_iff: "(\<forall>l. category r \<noteq> Some l) \<longleftrightarrow> category r = None"
  by (cases "category r") auto

lemma batches_empty_iff:
  assumes "create_balanced_batches data = Some batches"
  shows "batches = [] \<longleftrightarrow> (\<forall>r \<in> set data. category r = None)"
proof -
  from batch_loop_result [OF well_labelled_pools_of, of data "[]"] assms
  have ms: "mset (concat batches) = (\<Sum>l\<leftarrow>[High, Medium, Low]. mset (pools_of data l))"
    and ne: "\<forall>b \<in> set batches. b \<noteq> []"
    by (auto simp: create_balanced_batches_def)
  have "batches = [] \<longleftrightarrow> concat batches = []"
    using ne by (cases batches) auto
  also have "\<dots> \<longleftrightarrow> mset (concat batches) = {#}"
    by simp
  also have "\<dots> \<longleftrightarrow> (\<forall>l. pools_of data l = [])"
    unfolding ms by (auto intro: tier.exhaust) (metis tier.exhaust)
  also have "\<dots> \<longleftrightarrow> (\<forall>r \<in> set data. \<forall>l. category r \<noteq> Some l)"
    unfolding pools_of_def filter_empty_conv by (rule iffI) simp_all
  also have "\<dots> \<longleftrightarrow> (\<forall>r \<in> set data. category r = None)"
    by (simp only: category_None_iff)
  finally show ?thesis .
qed

lemma categorize_students_category:
  "(\<forall>r \<in> set (categorize_students data). category r = None)
     \<longleftrightarrow> (\<forall>r \<in> set data. categorize (score r) = None)"
  by (auto simp: categorize_students_def)

text \<open>
  Claim C7, as amended. With an empty topic list the Topic Rotator fails (with
  Python's \<^verbatim>\<open>StopIteration\<close>) exactly when there is a batch and the week count is at
  least 1; with no batch, or a week count below 1, it returns the empty list of
  assignments. A run with an empty topic list never shows a table or an archive: on
  an empty frame nothing is computed, with a student that has a tier the Rotator
  fails, and otherwise the run fails in the Output Composer (\<^verbatim>\<open>ValueError\<close>).
\<close>

theorem assign_topics_empty_topics:
  "assign_topics batches [] W = (if batches \<noteq> [] \<and> 1 \<le> W then Inl StopIteration else Inr [])
   \<and> main_run data []
       = Some (if data = [] then Inr None
               else if \<exists>r \<in> set data. categorize (score r) \<noteq> None then Inl StopIteration
               else Inl ValueError)"
proof -
  have run: "main_run data []
       = Some (if data = [] then Inr None
               else if \<exists>r \<in> set data. categorize (score r) \<noteq> None then Inl StopIteration
               else Inl ValueError)"
  proof -
    from batch_loop_result [OF well_labelled_pools_of, of "categorize_students data" "[]"]
    obtain batches where b: "create_balanced_batches (categorize_students data) = Some batches"
      by (auto simp: create_balanced_batches_def)
    have "batches = [] \<longleftrightarrow> (\<forall>r \<in> set data. categorize (score r) = None)"
      using batches_empty_iff [OF b] by (simp add: categorize_students_category)
    then show ?thesis
      by (auto simp: main_run_def b assign_topics_no_topics prepare_output_def)
  qed
  show ?thesis
    using run by (simp only: assign_topics_no_topics simp_thms)
qed

text \<open>
  The claim C7 as stated fails for the empty batch sequence: the Rotator returns
  normally.
\<close>

theorem assign_topics_empty_topics_counterexample:
  "assign_topics [] [] 5 = Inr []"
  by (simp add: assign_topics_def assign_weeks_no_batches)

section \<open>Properties of the Output Composer\<close>

text \<open>Decimal printing is injective, so batch labels and week headers are distinct.\<close>

declare str_nat.simps [simp del]

lemma str_nat_nonempty: "str_nat n \<noteq> []"
  by (subst str_nat.simps) simp

lemma digit_char_inj: "a < 10 \<Longrightarrow> b < 10 \<Longrightarrow> digit_char a = digit_char b \<Longrightarrow> a = b"
  by (simp add: digit_char_def char_of_eq_iff take_bit_eq_mod)

lemma str_nat_small: "n < 10 \<Longrightarrow> str_nat n = [digit_char n]"
  by (subst str_nat.simps) simp

lemma str_nat_large: "\<not> n < 10 \<Longrightarrow> str_nat n = str_nat (n div 10) @ [digit_char (n mod 10)]"
  by (subst str_nat.simps) simp

lemma str_nat_length: "length (str_nat n) = 1 \<longleftrightarrow> n < 10"
proof (cases "n < 10")
  case True
  then show ?thesis by (simp add: str_nat_small)
next
  case False
  have "length (str_nat (n div 10)) \<noteq> 0"
    using str_nat_nonempty by simp
  with False show ?thesis by (simp add: str_nat_large)
qed

lemma str_nat_inj: "str_nat n = str_nat m \<Longrightarrow> n = m"
proof (induction n arbitrary: m rule: str_nat.induct)
  case (1 n)
  show ?case
  proof (cases "n < 10")
    case True
    then have "m < 10"
      using "1.prems" str_nat_length [of n] str_nat_length [of m] by simp
    with True "1.prems" show ?thesis
      by (simp add: str_nat_small digit_char_inj)
  next
    case False
    then have m: "\<not> m < 10"
      using "1.prems" str_nat_length [of n] str_nat_length [of m] by simp
    from "1.prems" False m have
      pre: "str_nat (n div 10) = str_nat (m div 10)"
      and last: "digit_char (n mod 10) = digit_char (m mod 10)"
      by (simp_all add: str_nat_large)
    have "n div 10 = m div 10"
      using "1.IH" [OF False pre] .
    moreover have "n mod 10 = m mod 10"
      using last by (intro digit_char_inj) simp_all
    ultimately show ?thesis
      by (metis div_mult_mod_eq)
  qed
qed

lemma batch_label_inj: "batch_label i = batch_label j \<longleftrightarrow> i = j"
  by (auto simp: batch_label_def dest: str_nat_inj)

lemma week_column_inj: "0 \<le> v \<Longrightarrow> 0 \<le> w \<Longrightarrow> week_column v = week_column w \<longleftrightarrow> v = w"
  by (auto simp: week_column_def str_int_def dest!: str_nat_inj)

lemma week_column_not_base: "week_column w \<noteq> ''Name''" "week_column w \<noteq> ''Batch''"
  by (simp_all add: week_column_def)

lemma filter_week_expected:
  "filter (\<lambda>a. Week a = int d + 1) (map (expected_assignment B topics) [0..<W * B])
     = (if d < W then map (\<lambda>j. expected_assignment B topics (d * B + j)) [0..<B] else [])"
proof (induction W)
  case 0
  then show ?case by simp
next
  case (Suc W)
  have block: "filter (\<lambda>a. Week a = int d + 1)
                 (map (\<lambda>j. expected_assignment B topics (W * B + j)) [0..<B])
      = (if d = W then map (\<lambda>j. expected_assignment B topics (W * B + j)) [0..<B] else [])"
    by (auto simp: filter_empty_conv expected_assignment_def div_block intro!: filter_True)
  have "[0..<Suc W * B] = [0..<W * B] @ map (\<lambda>j. W * B + j) [0..<B]"
    using upt_shift [of "W * B" B] by (simp add: add.commute)
  then have "map (expected_assignment B topics) [0..<Suc W * B]
      = map (expected_assignment B topics) [0..<W * B]
        @ map (\<lambda>j. expected_assignment B topics (W * B + j)) [0..<B]"
    by (simp add: comp_def)
  then show ?case
    using Suc.IH block by (auto simp: less_Suc_eq)
qed

lemma week_topics_expected:
  assumes "1 \<le> w" and "w \<le> int W"
  shows "week_topics (map (expected_assignment B topics) [0..<W * B]) w
     = map (\<lambda>j. (batch_label j, Topic (topics ! ((nat (w - 1) * B + j) mod length topics))))
         [0..<B]"
proof -
  have w: "w = int (nat (w - 1)) + 1" and lt: "nat (w - 1) < W"
    using assms by simp_all
  have "week_topics (map (expected_assignment B topics) [0..<W * B]) (int (nat (w - 1)) + 1)
     = map (\<lambda>j. (batch_label j, Topic (topics ! ((nat (w - 1) * B + j) mod length topics))))
         [0..<B]"
    unfolding week_topics_def filter_week_expected using lt
    by (simp add: comp_def expected_assignment_def)
  with w show ?thesis by simp
qed

lemma map_of_labelled_list:
  "i \<in> set xs \<Longrightarrow> map_of (map (\<lambda>j. (batch_label j, g j)) xs) (batch_label i) = Some (g i)"
  by (induction xs) (auto simp: batch_label_inj)

lemma map_of_labelled:
  "i < B \<Longrightarrow> map_of (map (\<lambda>j. (batch_label j, g j)) [0..<B]) (batch_label i) = Some (g i)"
  by (rule map_of_labelled_list) simp

lemma distinct_labels: "distinct (map fst (map (\<lambda>j. (batch_label j, g j)) [0..<B]))"
  by (simp add: comp_def distinct_map inj_on_def batch_label_inj)

lemma batch_cells_mapped:
  "map (\<lambda>c. case c of None \<Rightarrow> None
             | Some k \<Rightarrow> map_of (map (\<lambda>j. (batch_label j, g j)) [0..<B]) k)
     (concat (map (\<lambda>(i, batch). map (\<lambda>r. Some (batch_label i)) batch) (enumerate n bs)))
   = concat (map (\<lambda>(i, batch). map (\<lambda>r. Some (g i)) batch) (enumerate n bs))"
  if "n + length bs \<le> B"
  using that
proof (induction bs arbitrary: n)
  case Nil
  then show ?case by simp
next
  case (Cons b bs)
  then have "n < B" and "Suc n + length bs \<le> B" by simp_all
  with Cons.IH [of "Suc n"] show ?case
    by (simp add: map_of_labelled comp_def)
qed

lemma update_fresh: "k \<notin> fst ` set al \<Longrightarrow> AList.update k v al = al @ [(k, v)]"
  by (induction al) auto

lemma composed_keys:
  "fst ` set (composed batches topics d) = {''Name'', ''Batch''} \<union> week_column ` {1..d}"
proof -
  have "fst ` set (batch_frame batches) = {''Name'', ''Batch''}"
    by (simp add: batch_frame_def)
  moreover have "fst ` set (map (\<lambda>w. (week_column w, week_cells batches topics w)) [1..d])
      = week_column ` {1..d}"
    by (simp add: image_image)
  ultimately show ?thesis
    by (simp add: composed_def image_Un)
qed

lemma composed_Batch:
  "map_of (composed batches topics d) ''Batch''
     = Some (concat (map (\<lambda>(i, batch). map (\<lambda>r. Some (batch_label i)) batch)
               (enumerate 0 batches)))"
  by (simp add: composed_def batch_frame_def)

lemma composed_step:
  assumes "0 \<le> d"
  shows "AList.update (week_column (d + 1)) (week_cells batches topics (d + 1))
           (composed batches topics d)
     = composed batches topics (d + 1)"
proof -
  have "week_column (d + 1) \<notin> fst ` set (composed batches topics d)"
    using assms by (auto simp: composed_keys week_column_not_base week_column_inj)
  moreover have "[1..d + 1] = [1..d] @ [d + 1]"
    using assms by (simp add: upto_rec2)
  ultimately show ?thesis
    by (simp add: update_fresh composed_def)
qed

lemma series_map_week:
  assumes "1 \<le> w" and "w \<le> int W"
  shows "series_map
           (week_topics (map (expected_assignment (length batches) topics) [0..<W * length batches]) w)
           (concat (map (\<lambda>(i, batch). map (\<lambda>r. Some (batch_label i)) batch)
               (enumerate 0 batches)))
     = Inr (week_cells batches topics w)"
proof -
  let ?g = "\<lambda>j. Topic (topics ! ((nat (w - 1) * length batches + j) mod length topics))"
  have cells: "map (\<lambda>c. case c of None \<Rightarrow> None
             | Some k \<Rightarrow> map_of (map (\<lambda>j. (batch_label j, ?g j)) [0..<length batches]) k)
     (concat (map (\<lambda>(i, batch). map (\<lambda>r. Some (batch_label i)) batch) (enumerate 0 batches)))
   = week_cells batches topics w"
    unfolding week_cells_def by (rule batch_cells_mapped) simp
  show ?thesis
    unfolding week_topics_expected [OF assms] series_map_def
    by (simp only: distinct_labels cells not_True_eq_False if_False)
qed

lemma add_week_columns_expected:
  "0 \<le> d \<Longrightarrow> d \<le> int W \<Longrightarrow>
   add_week_columns (map (expected_assignment (length batches) topics) [0..<W * length batches])
     [d + 1..int W] (composed batches topics d)
   = Inr (composed batches topics (int W))"
proof (induction "nat (int W - d)" arbitrary: d)
  case 0
  then have "d = int W" by simp
  then show ?case by simp
next
  case (Suc n)
  then have lt: "d + 1 \<le> int W" and n: "n = nat (int W - (d + 1))" and d1: "0 \<le> d + 1"
    and w1: "1 \<le> d + 1"
    by simp_all
  have weeks: "[d + 1..int W] = (d + 1) # [d + 1 + 1..int W]"
    using lt by (simp add: upto_rec1)
  show ?case
    unfolding weeks add_week_columns.simps composed_Batch option.case
      series_map_week [OF w1 lt] sum.case composed_step [OF \<open>0 \<le> d\<close>]
    by (rule Suc.hyps(1) [OF n d1 lt])
qed

lemma Max_week_expected:
  assumes "0 < B" and "0 < W"
  shows "Max (set (map Week (map (expected_assignment B topics) [0..<W * B]))) = int W"
proof (rule Max_eqI)
  show "finite (set (map Week (map (expected_assignment B topics) [0..<W * B])))"
    by simp
next
  fix y assume "y \<in> set (map Week (map (expected_assignment B topics) [0..<W * B]))"
  then obtain k where k: "k < W * B" and y: "y = int (k div B) + 1"
    by (auto simp: expected_assignment_def)
  from k have "k div B < W"
    by (simp add: less_mult_imp_div_less)
  with y show "y \<le> int W" by simp
next
  have "(W - 1) * B < W * B"
    using assms by simp
  moreover have "Week (expected_assignment B topics ((W - 1) * B)) = int W"
    using assms by (simp add: expected_assignment_def)
  ultimately have "(W - 1) * B \<in> set [0..<W * B]"
    and wk: "Week (expected_assignment B topics ((W - 1) * B)) = int W"
    by simp_all
  then have "Week (expected_assignment B topics ((W - 1) * B))
      \<in> (\<lambda>k. Week (expected_assignment B topics k)) ` set [0..<W * B]"
    by (intro imageI)
  also have "(\<lambda>k. Week (expected_assignment B topics k)) ` set [0..<W * B]
      = set (map Week (map (expected_assignment B topics) [0..<W * B]))"
    by (simp add: image_image)
  finally show "int W \<in> set (map Week (map (expected_assignment B topics) [0..<W * B]))"
    unfolding wk .
qed

lemma prepare_output_expected:
  assumes "batches \<noteq> []" and "1 \<le> W"
  shows "prepare_output batches
           (map (expected_assignment (length batches) topics) [0..<nat W * length batches])
     = Inr (composed batches topics W)"
proof -
  have B: "0 < length batches" and W: "0 < nat W" and iw: "int (nat W) = W"
    using assms by simp_all
  have ne: "map (expected_assignment (length batches) topics) [0..<nat W * length batches] \<noteq> []"
    using B W by simp
  have c0: "composed batches topics 0 = batch_frame batches"
    by (simp add: composed_def)
  have "add_week_columns
          (map (expected_assignment (length batches) topics) [0..<nat W * length batches])
          [0 + 1..W] (batch_frame batches)
      = Inr (composed batches topics W)"
    using add_week_columns_expected [of 0 "nat W" batches topics, unfolded iw c0] assms(2)
    by simp
  then show ?thesis
    unfolding prepare_output_def Max_week_expected [OF B W] iw
    using assms(1) ne by simp
qed

lemma concat_enumerate_names:
  "concat (map (\<lambda>(i, batch). map f batch) (enumerate n bs)) = map f (concat bs)"
  by (induction bs arbitrary: n) simp_all

lemma concat_enumerate_cong:
  "(\<And>i. i < length bs \<Longrightarrow> g (n + i) = h (n + i)) \<Longrightarrow>
   concat (map (\<lambda>(i, batch). map (\<lambda>r. g i) batch) (enumerate n bs))
     = concat (map (\<lambda>(i, batch). map (\<lambda>r. h i) batch) (enumerate n bs))"
proof (induction bs arbitrary: n)
  case Nil
  then show ?case by simp
next
  case (Cons b bs)
  have "g n = h n"
    using Cons.prems [of 0] by simp
  moreover have "g (Suc n + i) = h (Suc n + i)" if "i < length bs" for i
    using Cons.prems [of "Suc i"] that by simp
  ultimately show ?case
    using Cons.IH [of "Suc n"] by simp
qed

lemma map_of_week_columns:
  assumes "w \<in> set ws" and "\<forall>v \<in> set ws. 0 \<le> v"
  shows "map_of (map (\<lambda>w. (week_column w, g w)) ws) (week_column w) = Some (g w)"
  using assms by (induction ws) (auto simp: week_column_inj)

lemma composed_week:
  assumes "1 \<le> w" and "w \<le> d"
  shows "map_of (composed batches topics d) (week_column w) = Some (week_cells batches topics w)"
proof -
  have "map_of (batch_frame batches) (week_column w) = None"
    using week_column_not_base [of w] by (auto simp: batch_frame_def)
  moreover have "map_of (map (\<lambda>w. (week_column w, week_cells batches topics w)) [1..d])
        (week_column w) = Some (week_cells batches topics w)"
    using assms by (intro map_of_week_columns) auto
  ultimately show ?thesis
    by (simp add: composed_def map_add_def)
qed

lemma composed_columns:
  "map fst (composed batches topics d) = [''Name'', ''Batch''] @ map week_column [1..d]"
  by (simp add: composed_def batch_frame_def comp_def)

lemma distinct_composed: "distinct (map fst (composed batches topics d))"
proof -
  have "distinct (map week_column [1..d])"
    by (auto simp: distinct_map inj_on_def week_column_inj)
  then show ?thesis
    unfolding composed_columns
    by (auto simp: week_column_not_base week_column_not_base [symmetric])
qed

lemma composed_Name:
  "map_of (composed batches topics d) ''Name'' = Some (map (\<lambda>r. Some (name r)) (concat batches))"
  by (simp add: composed_def batch_frame_def concat_enumerate_names)


lemma week_column_examples:
  "week_column 1 = ''Week 1 Topic''" "week_column 2 = ''Week 2 Topic''"
  by code_simp+

lemma roster_names:
  "map (\<lambda>r. Some (name r)) (concat roster_batches_list)
     = [Some ''a'', Some ''c'', Some ''f'', Some ''b'', Some ''d'', Some ''g'']"
  by (simp add: roster_batches_list_def)

text \<open>
  Claim C9. For a non-empty batch sequence, a non-empty topic list and a week count
  W of at least 1, the Output Composer returns, from the Rotator's assignments, a
  table with the columns \<^verbatim>\<open>Name\<close>, \<^verbatim>\<open>Batch\<close> and exactly the W distinct columns
  \<^verbatim>\<open>Week w Topic\<close>, w from 1 to W. It has one row per student of the batches, batch by
  batch in order, and in the row of a student of batch \<open>i\<close> the cell of week \<open>w\<close> is the
  topic title of the Rotator's assignment for week \<open>w\<close> and that batch.
\<close>

theorem prepare_output_table:
  assumes "batches \<noteq> []" and "topics \<noteq> []" and "1 \<le> W"
    and "assign_topics batches topics W = Inr assignments"
  shows "\<exists>output. prepare_output batches assignments = Inr output
     \<and> map fst output = [''Name'', ''Batch''] @ map week_column [1..W]
     \<and> distinct (map fst output)
     \<and> map_of output ''Name'' = Some (map (\<lambda>r. Some (name r)) (concat batches))
     \<and> map_of output ''Batch''
         = Some (concat (map (\<lambda>(i, batch). map (\<lambda>r. Some (batch_label i)) batch)
                   (enumerate 0 batches)))
     \<and> (\<forall>w \<in> {1..W}.
           map_of output (week_column w)
             = Some (concat (map (\<lambda>(i, batch).
                   map (\<lambda>r. Some (Topic_title (assignments ! (nat (w - 1) * length batches + i))))
                     batch)
                 (enumerate 0 batches)))
           \<and> (\<forall>i < length batches.
                 Week (assignments ! (nat (w - 1) * length batches + i)) = w
               \<and> Batch (assignments ! (nat (w - 1) * length batches + i)) = batch_label i))"
proof -
  define B where "B = length batches"
  have as: "assignments = map (expected_assignment B topics) [0..<nat W * B]"
    using assms(4) assign_topics_expected [OF assms(2), of batches W] by (simp add: B_def)
  have nth: "assignments ! (nat (w - 1) * B + i) = expected_assignment B topics (nat (w - 1) * B + i)"
    if "1 \<le> w" "w \<le> W" "i < B" for w i
  proof -
    have "nat (w - 1) * B + i < Suc (nat (w - 1)) * B"
      using that(3) by simp
    also have "\<dots> \<le> nat W * B"
      using that(1,2) by (intro mult_le_mono1) simp
    finally show ?thesis by (simp add: as)
  qed
  have out: "prepare_output batches assignments = Inr (composed batches topics W)"
    unfolding as B_def by (rule prepare_output_expected [OF assms(1,3)])
  have weeks: "map_of (composed batches topics W) (week_column w)
             = Some (concat (map (\<lambda>(i, batch).
                   map (\<lambda>r. Some (Topic_title (assignments ! (nat (w - 1) * length batches + i))))
                     batch)
                 (enumerate 0 batches)))
           \<and> (\<forall>i < length batches.
                 Week (assignments ! (nat (w - 1) * length batches + i)) = w
               \<and> Batch (assignments ! (nat (w - 1) * length batches + i)) = batch_label i)"
    if w: "w \<in> {1..W}" for w
  proof -
    from w have w1: "1 \<le> w" and w2: "w \<le> W" by simp_all
    have "week_cells batches topics w
        = concat (map (\<lambda>(i, batch).
                   map (\<lambda>r. Some (Topic_title (assignments ! (nat (w - 1) * length batches + i))))
                     batch)
                 (enumerate 0 batches))"
      unfolding week_cells_def
      by (rule concat_enumerate_cong)
         (simp add: nth [OF w1 w2, unfolded B_def] expected_assignment_def)
    moreover have "Week (assignments ! (nat (w - 1) * length batches + i)) = w
               \<and> Batch (assignments ! (nat (w - 1) * length batches + i)) = batch_label i"
      if "i < length batches" for i
      using that w1 nth [OF w1 w2, of i]
      by (simp add: B_def expected_assignment_def div_block)
    ultimately show ?thesis
      using composed_week [OF w1 w2, of batches topics] by simp
  qed
  show ?thesis
    using out weeks composed_columns [of batches topics W] distinct_composed [of batches topics W]
      composed_Name [of batches topics W] composed_Batch [of batches topics W]
    by blast
qed

theorem prepare_output_table_witness:
  "roster_batches_list \<noteq> [] \<and> example_topics \<noteq> []
   \<and> (\<exists>assignments output.
         assign_topics roster_batches_list example_topics 2 = Inr assignments
       \<and> prepare_output roster_batches_list assignments = Inr output
       \<and> map fst output = [''Name'', ''Batch'', ''Week 1 Topic'', ''Week 2 Topic'']
       \<and> map_of output ''Name''
           = Some [Some ''a'', Some ''c'', Some ''f'', Some ''b'', Some ''d'', Some ''g''])"
proof -
  have ne: "roster_batches_list \<noteq> []"
    by (simp add: roster_batches_list_def)
  have tp: "example_topics \<noteq> []"
    by (simp add: example_topics_def)
  have w: "(1::int) \<le> 2"
    by simp
  obtain assignments where
    as: "assign_topics roster_batches_list example_topics 2 = Inr assignments"
    using assign_topics_expected [OF tp] by blast
  from prepare_output_table [OF ne tp w as] obtain table where
    "prepare_output roster_batches_list assignments = Inr table"
    "map fst table = [''Name'', ''Batch''] @ map week_column [1..2]"
    "map_of table ''Name'' = Some (map (\<lambda>r. Some (name r)) (concat roster_batches_list))"
    by blast
  moreover have "[1..2::int] = [1, 2]"
    by (simp add: upto.simps)
  ultimately show ?thesis
    using ne tp as by (simp add: roster_names week_column_examples)
qed

section \<open>Properties of the run\<close>








section \<open>Properties of the Score Normalizer\<close>



























end
